theory Spec2Isabelle
  imports Main "HOL-Library.AList"
begin

section \<open>Clock and timer core of \<open>nautilus_trader/common/clock.pyx\<close>\<close>

text \<open>
  Instants (\<open>datetime\<close>) and durations (\<open>timedelta\<close>) are integer counts of microseconds:
  \<open>datetime + timedelta\<close>, \<open>datetime - datetime\<close> and the comparisons are those of \<open>int\<close>,
  and \<open>interval.total_seconds() > 0\<close> is \<open>0 < interval\<close>. A \<open>Label\<close> is its string value.

  A \<open>datetime\<close> lies between \<open>datetime.min\<close> and \<open>datetime.max\<close> (years 1 to 9999), and
  \<open>datetime + timedelta\<close> raises \<open>OverflowError\<close> beyond them. In \<open>iterate_next\<close> the error
  is dropped and the call goes on, which is modelled. In \<open>Timer.__init__\<close> and in the checks
  of \<open>set_timer\<close> the error leaves the setter before the registry is touched: the clock
  after such a call is the clock before it, and the model, which adds without a bound
  there, reaches every clock the code reaches.

  A Python dictionary keeps its keys in insertion order: it is an association list with
  distinct keys. \<open>d[k] = v\<close> is \<open>AList.update k v\<close> (in place for a key that is there, at the
  end otherwise), \<open>d.pop(k, None)\<close> is \<open>AList.delete k\<close>, \<open>d[k]\<close> and \<open>k in d\<close> go through
  \<open>map_of\<close>.

  Logging (\<open>_log\<close>, \<open>is_logger_registered\<close>) writes to a sink only and is left out.
\<close>

type_synonym Label = string

subsection \<open>TimeEvent\<close>

text \<open>
  Modelled from the spec: \<open>TimeEvent\<close> is declared in \<open>nautilus_trader.model.events\<close>, not
  among the sources. An event is \<open>TimeEvent(label, GUID(uuid.uuid4()), timestamp)\<close>; the
  identifier is a fresh random value, and equality and hash of events go by it, so two
  events made by two constructor calls are never the same dictionary key. The record keeps
  the label and the timestamp, and a dictionary keyed by events is the list of its items in
  insertion order.
\<close>

record TimeEvent =
  ev_label :: Label
  ev_timestamp :: int

subsection \<open>Timer and TestTimer\<close>

record TestTimer =
  label :: Label
  interval :: int
  start_time :: int
  next_time :: int
  stop_time :: "int option"
  expired :: bool

text \<open>\<open>Timer.__init__\<close> followed by \<open>self.expired = False\<close> of \<open>TestTimer.__init__\<close>.\<close>

definition TestTimer_init :: "Label \<Rightarrow> int \<Rightarrow> int \<Rightarrow> int option \<Rightarrow> TestTimer" where
  "TestTimer_init lbl ival start stop =
     \<lparr>label = lbl, interval = ival, start_time = start,
      next_time = start + ival, stop_time = stop, expired = False\<rparr>"

text \<open>
  The bounds of a \<open>datetime\<close> in UTC, in microseconds from the Unix epoch:
  \<open>0001-01-01T00:00:00\<close> and \<open>9999-12-31T23:59:59.999999\<close>.
\<close>

definition datetime_min :: int where
  "datetime_min = - 62135596800000000"

definition datetime_max :: int where
  "datetime_max = 253402300799999999"

text \<open>
  \<open>iterate_next\<close> is declared \<open>cpdef void\<close> with no \<open>except\<close> clause: the \<open>OverflowError\<close>
  that \<open>self.next_time += self.interval\<close> raises beyond the bounds is written to the error
  stream and dropped, and the call returns with \<open>next_time\<close> as it was.
\<close>

definition iterate_next :: "TestTimer \<Rightarrow> TestTimer" where
  "iterate_next self =
     (if datetime_min \<le> next_time self + interval self \<and>
         next_time self + interval self \<le> datetime_max
      then self\<lparr>next_time := next_time self + interval self\<rparr>
      else self)"

definition TestTimer_cancel :: "TestTimer \<Rightarrow> TestTimer" where
  "TestTimer_cancel self = self\<lparr>expired := True\<rparr>"

text \<open>
  One pass through the body of the \<open>while\<close> loop of \<open>TestTimer.advance\<close>, after the event
  has been appended: \<open>iterate_next\<close>, then the expiry latch. A \<open>datetime\<close> is always truthy,
  so \<open>if self.stop_time and ...\<close> tests \<open>stop_time is not None\<close>.
\<close>

definition advance_step :: "TestTimer \<Rightarrow> TestTimer" where
  "advance_step self =
     (let self' = iterate_next self in
      case stop_time self' of
        None \<Rightarrow> self'
      | Some stop \<Rightarrow> if next_time self' > stop then self'\<lparr>expired := True\<rparr> else self')"

text \<open>
  The \<open>while\<close> loop of \<open>TestTimer.advance\<close>. Nothing bounds the number of iterations, so
  the loop is a partial function: \<open>None\<close> is the call that never returns.
\<close>

partial_function (option) advance_loop ::
  "int \<Rightarrow> TestTimer \<Rightarrow> TimeEvent list \<Rightarrow> (TimeEvent list \<times> TestTimer) option" where
  "advance_loop to_time self time_events =
     (if \<not> expired self \<and> to_time \<ge> next_time self
      then advance_loop to_time (advance_step self)
             (time_events @ [\<lparr>ev_label = label self, ev_timestamp = next_time self\<rparr>])
      else Some (time_events, self))"

declare advance_loop.simps [code]

definition advance :: "TestTimer \<Rightarrow> int \<Rightarrow> (TimeEvent list \<times> TestTimer) option" where
  "advance self to_time = advance_loop to_time self []"

subsection \<open>Handlers, exceptions and outcomes\<close>

text \<open>
  A handler argument is any Python object: \<open>None\<close> (the \<open>option\<close>), a callable or
  something else. The number tells objects apart.
\<close>

datatype handler = Callable nat | NotCallable nat

datatype error = ConditionFailed | KeyError | TypeError

text \<open>
  A call either raises or returns; in both cases the object it was called on lives on, so
  every operation yields the outcome together with the clock after the call.
\<close>

datatype 'a outcome = Raised error | Returned 'a

text \<open>
  Modelled from the spec: \<open>nautilus_trader.core.correctness.Condition\<close> is not among the
  sources. By the docstrings of the setters, \<open>Condition.not_in(k, d, ..)\<close> raises
  \<open>ConditionFailed\<close> when \<open>k\<close> is a key of \<open>d\<close>, \<open>Condition.true(p, ..)\<close> when \<open>p\<close> is
  false, and \<open>Condition.type(h, Callable, ..)\<close> when \<open>h\<close> is not callable (\<open>None\<close> is not).
\<close>

definition Condition_not_in :: "Label \<Rightarrow> (Label \<times> 'v) list \<Rightarrow> bool" where
  "Condition_not_in k d = (map_of d k = None)"

fun Condition_type_Callable :: "handler option \<Rightarrow> bool" where
  "Condition_type_Callable (Some (Callable _)) = True"
| "Condition_type_Callable _ = False"

subsection \<open>Clock and TestClock\<close>

record TestClock =
  timers :: "(Label \<times> TestTimer) list"
  handlers :: "(Label \<times> handler) list"
  default_handler :: "handler option"
  next_event_time :: "int option"
  has_timers :: bool
  is_default_handler_registered :: bool
  time :: int

text \<open>\<open>Clock.__init__\<close> followed by \<open>self._time = initial_time\<close>.\<close>

definition TestClock_init :: "int \<Rightarrow> TestClock" where
  "TestClock_init initial_time =
     \<lparr>timers = [], handlers = [], default_handler = None, next_event_time = None,
      has_timers = False, is_default_handler_registered = False, time = initial_time\<rparr>"

definition time_now :: "TestClock \<Rightarrow> int" where
  "time_now self = time self"

definition set_time :: "TestClock \<Rightarrow> int \<Rightarrow> TestClock" where
  "set_time self to_time = self\<lparr>time := to_time\<rparr>"

definition get_timer_labels :: "TestClock \<Rightarrow> Label list" where
  "get_timer_labels self = map fst (timers self)"

definition register_default_handler :: "TestClock \<Rightarrow> handler option \<Rightarrow> unit outcome \<times> TestClock" where
  "register_default_handler self h =
     (if \<not> Condition_type_Callable h then (Raised ConditionFailed, self)
      else (Returned (), self\<lparr>default_handler := h, is_default_handler_registered := True\<rparr>))"

text \<open>
  \<open>sorted(timer.next_time for timer in self._timers.values())[0]\<close>: the head of the sorted
  list, read only in the branch where the dictionary is not empty.
\<close>

definition update_timing :: "TestClock \<Rightarrow> TestClock" where
  "update_timing self =
     (if length (timers self) = 0
      then self\<lparr>has_timers := False, next_event_time := None\<rparr>
      else self\<lparr>has_timers := True,
                next_event_time := Some (hd (sort (map (\<lambda>(k, timer). next_time timer) (timers self))))\<rparr>)"

definition add_timer :: "TestClock \<Rightarrow> TestTimer \<Rightarrow> handler \<Rightarrow> TestClock" where
  "add_timer self timer h =
     update_timing (self\<lparr>timers := AList.update (label timer) timer (timers self),
                         handlers := AList.update (label timer) h (handlers self)\<rparr>)"

definition remove_timer :: "TestClock \<Rightarrow> TestTimer \<Rightarrow> TestClock" where
  "remove_timer self timer =
     update_timing (self\<lparr>timers := AList.delete (label timer) (timers self),
                         handlers := AList.delete (label timer) (handlers self)\<rparr>)"

text \<open>\<open>TestClock._get_timer\<close> and \<open>TestClock._get_timer_repeating\<close>.\<close>

definition get_timer :: "TestClock \<Rightarrow> Label \<Rightarrow> int \<Rightarrow> TestTimer" where
  "get_timer self lbl event_time =
     TestTimer_init lbl (event_time - time_now self) (time_now self) (Some event_time)"

definition get_timer_repeating :: "Label \<Rightarrow> int \<Rightarrow> int \<Rightarrow> int option \<Rightarrow> TestTimer" where
  "get_timer_repeating lbl ival start stop = TestTimer_init lbl ival start stop"

definition set_time_alert ::
  "TestClock \<Rightarrow> Label \<Rightarrow> int \<Rightarrow> handler option \<Rightarrow> unit outcome \<times> TestClock" where
  "set_time_alert self lbl alert_time handler_arg =
     (let h = (if handler_arg = None then default_handler self else handler_arg) in
      if \<not> Condition_not_in lbl (timers self) then (Raised ConditionFailed, self)
      else if \<not> Condition_not_in lbl (handlers self) then (Raised ConditionFailed, self)
      else if \<not> Condition_type_Callable h then (Raised ConditionFailed, self)
      else if \<not> (alert_time \<ge> time_now self) then (Raised ConditionFailed, self)
      else (Returned (), add_timer self (get_timer self lbl alert_time) (the h)))"

text \<open>
  In \<open>set_timer\<close> the check \<open>start_time + interval >= self.time_now()\<close> stands inside the
  branch \<open>start_time is None\<close>, after \<open>start_time = self.time_now()\<close>; a start time that
  the caller supplies is compared with the stop time only.
\<close>

definition set_timer ::
  "TestClock \<Rightarrow> Label \<Rightarrow> int \<Rightarrow> int option \<Rightarrow> int option \<Rightarrow> handler option
     \<Rightarrow> unit outcome \<times> TestClock" where
  "set_timer self lbl ival start_arg stop handler_arg =
     (let h = (if handler_arg = None then default_handler self else handler_arg) in
      if \<not> Condition_not_in lbl (timers self) then (Raised ConditionFailed, self)
      else if \<not> Condition_not_in lbl (handlers self) then (Raised ConditionFailed, self)
      else if \<not> (ival > 0) then (Raised ConditionFailed, self)
      else if \<not> Condition_type_Callable h then (Raised ConditionFailed, self)
      else if start_arg = None \<and> \<not> (time_now self + ival \<ge> time_now self)
        then (Raised ConditionFailed, self)
      else
        (let start = (case start_arg of None \<Rightarrow> time_now self | Some s \<Rightarrow> s) in
         if stop \<noteq> None \<and> \<not> (start < the stop) then (Raised ConditionFailed, self)
         else if stop \<noteq> None \<and> \<not> (start + ival \<le> the stop) then (Raised ConditionFailed, self)
         else (Returned (), add_timer self (get_timer_repeating lbl ival start stop) (the h))))"

text \<open>
  \<open>cancel_timer\<close> pops the timer and calls \<open>timer.cancel()\<close> on it: the latch is set on
  an object that the clock no longer holds, and the local variable is dropped at the end
  of the call.
\<close>

definition cancel_timer :: "TestClock \<Rightarrow> Label \<Rightarrow> TestClock" where
  "cancel_timer self lbl =
     (let timer = map_option TestTimer_cancel (map_of (timers self) lbl) in
      update_timing (self\<lparr>timers := AList.delete lbl (timers self),
                          handlers := AList.delete lbl (handlers self)\<rparr>))"

text \<open>\<open>for label in self.get_timer_labels(): self.cancel_timer(label)\<close>.\<close>

definition cancel_all_timers :: "TestClock \<Rightarrow> TestClock" where
  "cancel_all_timers self = fold (\<lambda>lbl c. cancel_timer c lbl) (get_timer_labels self) self"

subsection \<open>TestClock.advance_time\<close>

text \<open>
  The outer loop runs over \<open>self._timers.copy().values()\<close>: a snapshot of the dictionary
  whose values are the very timer objects of the registry. \<open>timer.advance(to_time)\<close>
  changes the object, hence the entry of the registry under the key it is stored at
  (\<open>AList.map_entry\<close>: an entry that is gone stays gone). The events of the timer are then
  paired with \<open>self._handlers[timer.label]\<close>, a \<open>KeyError\<close> when the label has no handler,
  and an expired timer is removed.
\<close>

fun advance_timers ::
  "(Label \<times> TestTimer) list \<Rightarrow> int \<Rightarrow> (TimeEvent \<times> handler) list \<Rightarrow> TestClock
     \<Rightarrow> ((TimeEvent \<times> handler) list outcome \<times> TestClock) option" where
  "advance_timers [] to_time events self = Some (Returned events, self)"
| "advance_timers ((k, timer) # rest) to_time events self =
     (case advance timer to_time of
        None \<Rightarrow> None
      | Some (time_events, timer') \<Rightarrow>
          (let self1 = self\<lparr>timers := AList.map_entry k (\<lambda>_. timer') (timers self)\<rparr> in
           if time_events \<noteq> [] \<and> map_of (handlers self1) (label timer') = None
           then Some (Raised KeyError, self1)
           else
             (let events' = events @ map (\<lambda>event. (event, the (map_of (handlers self1) (label timer'))))
                                         time_events;
                  self2 = (if expired timer' then remove_timer self1 timer' else self1)
              in advance_timers rest to_time events' self2)))"

text \<open>
  Modelled from the spec: \<open>TimeEvent\<close> is declared in \<open>nautilus_trader.model.events\<close>, not
  among the sources; its ordering "is by \<open>timestamp\<close> ascending". \<open>sorted\<close> is stable, so
  \<open>dict(sorted(events.items()))\<close> is the stable sort of the items on the timestamp of the
  event.
\<close>

definition sorted_items :: "(TimeEvent \<times> handler) list \<Rightarrow> (TimeEvent \<times> handler) list" where
  "sorted_items events = sort_key (\<lambda>(event, h). ev_timestamp event) events"

text \<open>
  \<open>to_time < self.next_event_time\<close> is read only when \<open>has_timers\<close> holds; comparing a
  \<open>datetime\<close> with \<open>None\<close> is a \<open>TypeError\<close>.
\<close>

definition advance_time ::
  "TestClock \<Rightarrow> int \<Rightarrow> ((TimeEvent \<times> handler) list outcome \<times> TestClock) option" where
  "advance_time self to_time =
     (if \<not> has_timers self then Some (Returned [], self)
      else case next_event_time self of
        None \<Rightarrow> Some (Raised TypeError, self)
      | Some next_event \<Rightarrow>
          if to_time < next_event then Some (Returned [], self)
          else
            (case advance_timers (timers self) to_time [] self of
               None \<Rightarrow> None
             | Some (Raised e, self') \<Rightarrow> Some (Raised e, self')
             | Some (Returned events, self') \<Rightarrow>
                 Some (Returned (sorted_items events), (update_timing self')\<lparr>time := to_time\<rparr>)))"

subsection \<open>Sequences of public operations\<close>

datatype operation =
    SetTimeAlert Label int "handler option"
  | SetTimer Label int "int option" "int option" "handler option"
  | CancelTimer Label
  | CancelAllTimers
  | AdvanceTime int
  | SetTime int
  | RegisterDefaultHandler "handler option"

text \<open>
  The clock after one operation, whether the call returned or raised (a caller may catch
  the exception and go on); \<open>None\<close> when the call never returns.
\<close>

fun run_op :: "TestClock \<Rightarrow> operation \<Rightarrow> TestClock option" where
  "run_op c (SetTimeAlert lbl alert_time h) = Some (snd (set_time_alert c lbl alert_time h))"
| "run_op c (SetTimer lbl ival start stop h) = Some (snd (set_timer c lbl ival start stop h))"
| "run_op c (CancelTimer lbl) = Some (cancel_timer c lbl)"
| "run_op c CancelAllTimers = Some (cancel_all_timers c)"
| "run_op c (AdvanceTime to_time) = map_option snd (advance_time c to_time)"
| "run_op c (SetTime to_time) = Some (set_time c to_time)"
| "run_op c (RegisterDefaultHandler h) = Some (snd (register_default_handler c h))"

fun run_ops :: "TestClock \<Rightarrow> operation list \<Rightarrow> TestClock option" where
  "run_ops c [] = Some c"
| "run_ops c (x # xs) = (case run_op c x of None \<Rightarrow> None | Some c' \<Rightarrow> run_ops c' xs)"

section \<open>Auxiliary notions\<close>

subsection \<open>Runs of the loop of \<open>TestTimer.advance\<close>\<close>

text \<open>
  \<open>stuck\<close>: the loop condition holds, and a pass neither sets the latch nor moves
  \<open>next_time\<close> forward. \<open>fires t n\<close>: the events of \<open>n\<close> consecutive passes started at \<open>t\<close>.
\<close>

definition stuck :: "int \<Rightarrow> TestTimer \<Rightarrow> bool" where
  "stuck to t \<longleftrightarrow>
     \<not> expired t \<and> next_time t \<le> to \<and>
     \<not> expired (advance_step t) \<and> next_time (advance_step t) \<le> next_time t"

definition fires :: "TestTimer \<Rightarrow> nat \<Rightarrow> TimeEvent list" where
  "fires t n =
     map (\<lambda>k. \<lparr>ev_label = label t, ev_timestamp = next_time ((advance_step ^^ k) t)\<rparr>) [0..<n]"

text \<open>The loop ran exactly \<open>n\<close> times.\<close>

definition loop_ran :: "int \<Rightarrow> TestTimer \<Rightarrow> nat \<Rightarrow> bool" where
  "loop_ran to t n \<longleftrightarrow>
     (\<forall>k<n. \<not> expired ((advance_step ^^ k) t) \<and> next_time ((advance_step ^^ k) t) \<le> to) \<and>
     (expired ((advance_step ^^ n) t) \<or> \<not> next_time ((advance_step ^^ n) t) \<le> to)"

subsection \<open>Invariants of the clock\<close>

text \<open>
  \<open>timing_ok\<close>: the cache agrees with the registry. \<open>clock_inv\<close>: what holds of a clock
  between two calls. \<open>loop_inv to rest c\<close>: what holds inside the loop of \<open>advance_time\<close>
  when \<open>rest\<close> of the snapshot is still to be advanced.
\<close>

definition timing_ok :: "TestClock \<Rightarrow> bool" where
  "timing_ok c \<longleftrightarrow>
     (has_timers c \<longleftrightarrow> timers c \<noteq> []) \<and>
     next_event_time c =
       (if timers c = [] then None
        else Some (Min ((\<lambda>(k, t). next_time t) ` set (timers c))))"

definition clock_inv :: "TestClock \<Rightarrow> bool" where
  "clock_inv c \<longleftrightarrow>
     distinct (map fst (timers c)) \<and>
     (\<forall>(k, t) \<in> set (timers c). label t = k \<and> \<not> expired t) \<and>
     fst ` set (timers c) = fst ` set (handlers c) \<and>
     timing_ok c"

definition loop_inv :: "int \<Rightarrow> (Label \<times> TestTimer) list \<Rightarrow> TestClock \<Rightarrow> bool" where
  "loop_inv to rest c \<longleftrightarrow>
     distinct (map fst rest) \<and>
     distinct (map fst (timers c)) \<and>
     set rest \<subseteq> set (timers c) \<and>
     (\<forall>(k, t) \<in> set (timers c). label t = k \<and> \<not> expired t \<and> ((k, t) \<in> set rest \<or> to < next_time t)) \<and>
     fst ` set (timers c) = fst ` set (handlers c)"

subsection \<open>Registration of a label by a sequence of operations\<close>

text \<open>
  \<open>registers L c x\<close>: the operation \<open>x\<close>, called on the clock \<open>c\<close>, is a setter for the label
  \<open>L\<close> that returns. \<open>not_registered L c xs\<close>: no operation of \<open>xs\<close>, run from \<open>c\<close>, registers
  \<open>L\<close>.
\<close>

fun registers :: "Label \<Rightarrow> TestClock \<Rightarrow> operation \<Rightarrow> bool" where
  "registers L c (SetTimeAlert lbl alert_time h) =
     (lbl = L \<and> fst (set_time_alert c lbl alert_time h) = Returned ())"
| "registers L c (SetTimer lbl ival start stop h) =
     (lbl = L \<and> fst (set_timer c lbl ival start stop h) = Returned ())"
| "registers L c _ = False"

fun not_registered :: "Label \<Rightarrow> TestClock \<Rightarrow> operation list \<Rightarrow> bool" where
  "not_registered L c [] = True"
| "not_registered L c (x # xs) =
     (\<not> registers L c x \<and> (case run_op c x of None \<Rightarrow> True | Some c' \<Rightarrow> not_registered L c' xs))"

subsection \<open>An example clock\<close>

text \<open>
  A clock started at 100 with an alert \<open>a\<close> at 105 and a repeating timer \<open>r\<close> every 10, and
  the same clock after \<open>advance_time(112)\<close>.
\<close>

definition example_ops :: "operation list" where
  "example_ops =
     [SetTimeAlert ''a'' 105 (Some (Callable 1)), SetTimer ''r'' 10 None None (Some (Callable 2))]"

definition example_clock :: TestClock where
  "example_clock =
     \<lparr>timers =
        [(''a'', \<lparr>label = ''a'', interval = 5, start_time = 100, next_time = 105,
                 stop_time = Some 105, expired = False\<rparr>),
         (''r'', \<lparr>label = ''r'', interval = 10, start_time = 100, next_time = 110,
                 stop_time = None, expired = False\<rparr>)],
      handlers = [(''a'', Callable 1), (''r'', Callable 2)],
      default_handler = None, next_event_time = Some 105, has_timers = True,
      is_default_handler_registered = False, time = 100\<rparr>"

definition example_clock' :: TestClock where
  "example_clock' =
     \<lparr>timers =
        [(''r'', \<lparr>label = ''r'', interval = 10, start_time = 100, next_time = 120,
                 stop_time = None, expired = False\<rparr>)],
      handlers = [(''r'', Callable 2)],
      default_handler = None, next_event_time = Some 120, has_timers = True,
      is_default_handler_registered = False, time = 112\<rparr>"

section \<open>TestTimer.advance\<close>

lemma advance_loop_stop:
  "expired t \<or> \<not> next_time t \<le> to \<Longrightarrow> advance_loop to t acc = Some (acc, t)"
  by (subst advance_loop.simps) auto

lemma advance_loop_go:
  "\<not> expired t \<Longrightarrow> next_time t \<le> to \<Longrightarrow>
   advance_loop to t acc =
     advance_loop to (advance_step t) (acc @ [\<lparr>ev_label = label t, ev_timestamp = next_time t\<rparr>])"
  by (subst advance_loop.simps) simp

lemma advance_step_fields [simp]:
  "label (advance_step t) = label t"
  "interval (advance_step t) = interval t"
  "start_time (advance_step t) = start_time t"
  "stop_time (advance_step t) = stop_time t"
  "TestTimer.more (advance_step t) = TestTimer.more t"
  by (simp_all add: advance_step_def iterate_next_def Let_def split: option.splits)

lemma advance_step_next_time:
  "next_time (advance_step t) =
     (if datetime_min \<le> next_time t + interval t \<and> next_time t + interval t \<le> datetime_max
      then next_time t + interval t else next_time t)"
  by (cases "stop_time t") (auto simp add: advance_step_def iterate_next_def Let_def)

lemma iterate_next_fields [simp]:
  "stop_time (iterate_next t) = stop_time t"
  "expired (iterate_next t) = expired t"
  by (simp_all add: iterate_next_def)

lemma advance_step_expired:
  "expired (advance_step t) \<longleftrightarrow>
     expired t \<or> (\<exists>s. stop_time t = Some s \<and> s < next_time (advance_step t))"
proof -
  have n: "next_time (advance_step t) = next_time (iterate_next t)"
    by (simp add: advance_step_def Let_def split: option.splits)
  have "expired (advance_step t) \<longleftrightarrow>
     expired t \<or> (\<exists>s. stop_time t = Some s \<and> s < next_time (iterate_next t))"
    by (cases "stop_time t") (simp_all add: advance_step_def Let_def)
  then show ?thesis by (simp only: n)
qed

text \<open>
  Within the bounds the loop ends: a timer of positive interval whose moments up to the
  one after \<open>to\<close> are representable.
\<close>

lemma advance_loop_terminates:
  "0 < interval t \<Longrightarrow> datetime_min \<le> next_time t \<Longrightarrow> to + interval t \<le> datetime_max \<Longrightarrow>
   \<exists>r. advance_loop to t acc = Some r"
proof (induction "nat (to + 1 - next_time t)" arbitrary: t acc rule: less_induct)
  case less
  show ?case
  proof (cases "\<not> expired t \<and> next_time t \<le> to")
    case True
    with less.prems have nx: "next_time (advance_step t) = next_time t + interval t"
      by (simp add: advance_step_next_time)
    have "\<exists>r. advance_loop to (advance_step t)
        (acc @ [\<lparr>ev_label = label t, ev_timestamp = next_time t\<rparr>]) = Some r"
      by (rule less.hyps) (use True less.prems nx in simp_all)
    with True show ?thesis by (simp add: advance_loop_go)
  next
    case False
    then show ?thesis by (simp add: advance_loop_stop)
  qed
qed

subsection \<open>A loop that makes no progress\<close>

lemma stuck_step: "stuck to t \<Longrightarrow> stuck to (advance_step t)"
proof -
  assume st: "stuck to t"
  let ?t1 = "advance_step t" and ?t2 = "advance_step (advance_step t)"
  from st have e1: "\<not> expired ?t1" and n1: "next_time ?t1 \<le> next_time t" and n0: "next_time t \<le> to"
    by (simp_all add: stuck_def)
  have n2: "next_time ?t2 \<le> next_time ?t1"
  proof (cases "datetime_min \<le> next_time t + interval t \<and> next_time t + interval t \<le> datetime_max")
    case True
    then have "next_time ?t1 = next_time t + interval t" by (simp add: advance_step_next_time)
    with n1 have "interval t \<le> 0" by simp
    then show ?thesis by (simp add: advance_step_next_time [of ?t1])
  next
    case False
    then have "next_time ?t1 = next_time t" by (auto simp add: advance_step_next_time)
    with False show ?thesis by (auto simp add: advance_step_next_time [of ?t1])
  qed
  from e1 have "\<forall>s. stop_time t = Some s \<longrightarrow> next_time ?t1 \<le> s"
    by (auto simp add: advance_step_expired [of t])
  with n2 e1 have "\<not> expired ?t2"
    by (auto simp add: advance_step_expired [of ?t1])
  with e1 n1 n0 n2 show ?thesis by (simp add: stuck_def)
qed

lemma advance_loop_Some_not_stuck:
  assumes "advance_loop to t acc = Some y"
  shows "\<not> stuck to t"
proof (rule advance_loop.raw_induct [where P = "\<lambda>to t acc y. \<not> stuck to t", OF _ assms])
  fix f to t acc y
  assume ih: "\<And>to t acc y. f to t acc = Some y \<Longrightarrow> \<not> stuck to t"
    and body: "(if \<not> expired t \<and> next_time t \<le> to
        then f to (advance_step t) (acc @ [\<lparr>ev_label = label t, ev_timestamp = next_time t\<rparr>])
        else Some (acc, t)) = Some y"
  show "\<not> stuck to t"
  proof
    assume st: "stuck to t"
    then have "\<not> expired t \<and> next_time t \<le> to" by (simp add: stuck_def)
    with body have "f to (advance_step t)
        (acc @ [\<lparr>ev_label = label t, ev_timestamp = next_time t\<rparr>]) = Some y"
      by simp
    then have "\<not> stuck to (advance_step t)" by (rule ih)
    with stuck_step [OF st] show False by simp
  qed
qed

lemma advance_loop_diverges:
  "stuck to t \<Longrightarrow> advance_loop to t acc = None"
  using advance_loop_Some_not_stuck [of to t acc] by (cases "advance_loop to t acc") auto

lemma advance_diverges: "stuck to t \<Longrightarrow> advance t to = None"
  unfolding advance_def by (rule advance_loop_diverges)

subsection \<open>Runs of the loop\<close>

lemma fires_Suc:
  "fires t (Suc n) = \<lparr>ev_label = label t, ev_timestamp = next_time t\<rparr> # fires (advance_step t) n"
  by (simp add: fires_def map_upt_Suc funpow_swap1 del: upt_Suc)

lemma steps_fields [simp]:
  "label ((advance_step ^^ k) t) = label t"
  "interval ((advance_step ^^ k) t) = interval t"
  "start_time ((advance_step ^^ k) t) = start_time t"
  "stop_time ((advance_step ^^ k) t) = stop_time t"
  "TestTimer.more ((advance_step ^^ k) t) = TestTimer.more t"
  by (induction k) simp_all

lemma steps_expired:
  "expired ((advance_step ^^ k) t) \<longleftrightarrow>
     expired t \<or>
     (\<exists>j s. 0 < j \<and> j \<le> k \<and> stop_time t = Some s \<and> s < next_time ((advance_step ^^ j) t))"
proof (induction k)
  case 0
  then show ?case by simp
next
  case (Suc k)
  have "expired ((advance_step ^^ Suc k) t) \<longleftrightarrow>
      expired ((advance_step ^^ k) t) \<or>
      (\<exists>s. stop_time t = Some s \<and> s < next_time ((advance_step ^^ Suc k) t))"
    using advance_step_expired [of "(advance_step ^^ k) t"] by simp
  also have "\<dots> \<longleftrightarrow> expired t \<or>
      (\<exists>j s. 0 < j \<and> j \<le> Suc k \<and> stop_time t = Some s \<and> s < next_time ((advance_step ^^ j) t))"
    unfolding Suc.IH by (auto simp add: le_Suc_eq)
  finally show ?case .
qed

lemma steps_mono:
  assumes "0 \<le> interval t" "i \<le> j"
  shows "next_time ((advance_step ^^ i) t) \<le> next_time ((advance_step ^^ j) t)"
proof (rule lift_Suc_mono_le [of "\<lambda>k. next_time ((advance_step ^^ k) t)", OF _ assms(2)])
  fix n
  show "next_time ((advance_step ^^ n) t) \<le> next_time ((advance_step ^^ Suc n) t)"
    using assms(1) by (simp add: advance_step_next_time)
qed

lemma steps_antimono:
  assumes "interval t \<le> 0" "i \<le> j"
  shows "next_time ((advance_step ^^ j) t) \<le> next_time ((advance_step ^^ i) t)"
proof (rule lift_Suc_antimono_le [of "\<lambda>k. next_time ((advance_step ^^ k) t)", OF _ assms(2)])
  fix n
  show "next_time ((advance_step ^^ Suc n) t) \<le> next_time ((advance_step ^^ n) t)"
    using assms(1) by (simp add: advance_step_next_time)
qed

lemma loop_ran_0: "loop_ran to t 0 \<longleftrightarrow> expired t \<or> \<not> next_time t \<le> to"
  by (simp add: loop_ran_def)

lemma loop_ran_Suc:
  "loop_ran to t (Suc n) \<longleftrightarrow> \<not> expired t \<and> next_time t \<le> to \<and> loop_ran to (advance_step t) n"
  by (auto simp add: loop_ran_def funpow_swap1 less_Suc_eq_0_disj)

lemma advance_loop_Some_loop_ran:
  assumes "advance_loop to t acc = Some r"
  shows "\<exists>n. loop_ran to t n \<and> r = (acc @ fires t n, (advance_step ^^ n) t)"
proof (rule advance_loop.raw_induct
    [where P = "\<lambda>to t acc r. \<exists>n. loop_ran to t n \<and> r = (acc @ fires t n, (advance_step ^^ n) t)",
     OF _ assms])
  fix f to t acc r
  assume ih: "\<And>to t acc r. f to t acc = Some r \<Longrightarrow>
        \<exists>n. loop_ran to t n \<and> r = (acc @ fires t n, (advance_step ^^ n) t)"
    and body: "(if \<not> expired t \<and> next_time t \<le> to
        then f to (advance_step t) (acc @ [\<lparr>ev_label = label t, ev_timestamp = next_time t\<rparr>])
        else Some (acc, t)) = Some r"
  show "\<exists>n. loop_ran to t n \<and> r = (acc @ fires t n, (advance_step ^^ n) t)"
  proof (cases "\<not> expired t \<and> next_time t \<le> to")
    case True
    with body have "f to (advance_step t)
        (acc @ [\<lparr>ev_label = label t, ev_timestamp = next_time t\<rparr>]) = Some r"
      by simp
    from ih [OF this] obtain n where n: "loop_ran to (advance_step t) n"
      "r = ((acc @ [\<lparr>ev_label = label t, ev_timestamp = next_time t\<rparr>]) @ fires (advance_step t) n,
            (advance_step ^^ n) (advance_step t))"
      by blast
    have "loop_ran to t (Suc n)" using True n(1) by (simp add: loop_ran_Suc)
    moreover have "r = (acc @ fires t (Suc n), (advance_step ^^ Suc n) t)"
      using n(2) by (simp add: fires_Suc funpow_swap1)
    ultimately show ?thesis by blast
  next
    case False
    with body have "r = (acc, t)" by simp
    moreover from False have "loop_ran to t 0" by (simp add: loop_ran_0)
    ultimately show ?thesis by (intro exI [of _ 0]) (simp add: fires_def)
  qed
qed

lemma loop_ran_stopped:
  "loop_ran to t n \<Longrightarrow>
   advance_loop to ((advance_step ^^ n) t) acc = Some (acc, (advance_step ^^ n) t)"
  by (rule advance_loop_stop) (simp add: loop_ran_def)

lemma advance_Some_loop_ran:
  "advance t to = Some (evs, t') \<Longrightarrow>
   \<exists>n. loop_ran to t n \<and> evs = fires t n \<and> t' = (advance_step ^^ n) t"
  using advance_loop_Some_loop_ran [of to t "[]" "(evs, t')"] by (simp add: advance_def)

text \<open>
  A loop that ended on a timer whose interval is not positive ran once at most: after a
  second pass neither the latch nor \<open>next_time\<close> could end it.
\<close>

lemma loop_ran_short:
  assumes run: "loop_ran to t n" and neg: "interval t \<le> 0"
  shows "n \<le> 1"
proof (rule ccontr)
  assume "\<not> n \<le> 1"
  then have n: "2 \<le> n" by simp
  from run have k: "\<forall>k<n. \<not> expired ((advance_step ^^ k) t) \<and> next_time ((advance_step ^^ k) t) \<le> to"
    by (simp add: loop_ran_def)
  from n have "\<not> expired ((advance_step ^^ 0) t) \<and> next_time ((advance_step ^^ 0) t) \<le> to"
    by (intro k [rule_format]) simp
  then have k0: "next_time t \<le> to" and e0: "\<not> expired t" by simp_all
  from n have "\<not> expired ((advance_step ^^ 1) t) \<and> next_time ((advance_step ^^ 1) t) \<le> to"
    by (intro k [rule_format]) simp
  then have k1: "\<not> expired ((advance_step ^^ 1) t)" by simp
  have "next_time ((advance_step ^^ n) t) \<le> next_time ((advance_step ^^ 0) t)"
    using neg by (rule steps_antimono) simp
  with k0 have "next_time ((advance_step ^^ n) t) \<le> to" by simp
  with run have "expired ((advance_step ^^ n) t)" by (simp add: loop_ran_def)
  then obtain j s where j: "0 < j" "stop_time t = Some s" "s < next_time ((advance_step ^^ j) t)"
    using e0 by (auto simp add: steps_expired)
  from j(1) have "next_time ((advance_step ^^ j) t) \<le> next_time ((advance_step ^^ 1) t)"
    using neg by (intro steps_antimono) simp_all
  with j(3) have "s < next_time ((advance_step ^^ 1) t)" by simp
  with j(2) have "expired ((advance_step ^^ 1) t)"
    by (subst steps_expired) (use j(2) in \<open>auto intro!: exI [of _ 1]\<close>)
  with k1 show False by simp
qed

lemma loop_ran_lower:
  assumes run: "loop_ran to t n" and k: "k < n"
  shows "next_time t \<le> next_time ((advance_step ^^ k) t)"
proof (cases "0 \<le> interval t")
  case True
  then have "next_time ((advance_step ^^ 0) t) \<le> next_time ((advance_step ^^ k) t)"
    by (rule steps_mono) simp
  then show ?thesis by simp
next
  case False
  then have "n \<le> 1" using loop_ran_short [OF run] by simp
  with k have "k = 0" by simp
  then show ?thesis by simp
qed

lemma advance_result:
  assumes "advance t to = Some (tevs, t')"
  shows "label t' = label t" "interval t' = interval t"
    "expired t' \<or> to < next_time t'"
    "\<forall>e \<in> set tevs. ev_label e = label t \<and> next_time t \<le> ev_timestamp e \<and> ev_timestamp e \<le> to"
proof -
  from assms obtain n where n: "loop_ran to t n" "tevs = fires t n" "t' = (advance_step ^^ n) t"
    using advance_Some_loop_ran by blast
  show "label t' = label t" "interval t' = interval t" using n(3) by simp_all
  show "expired t' \<or> to < next_time t'" using n(1,3) by (auto simp add: loop_ran_def)
  show "\<forall>e \<in> set tevs. ev_label e = label t \<and> next_time t \<le> ev_timestamp e \<and> ev_timestamp e \<le> to"
  proof
    fix e assume "e \<in> set tevs"
    then obtain k where k: "k < n"
      "e = \<lparr>ev_label = label t, ev_timestamp = next_time ((advance_step ^^ k) t)\<rparr>"
      using n(2) by (auto simp add: fires_def)
    have "next_time t \<le> next_time ((advance_step ^^ k) t)"
      using n(1) k(1) by (rule loop_ran_lower)
    moreover have "next_time ((advance_step ^^ k) t) \<le> to"
      using n(1) k(1) by (simp add: loop_ran_def)
    ultimately show "ev_label e = label t \<and> next_time t \<le> ev_timestamp e \<and> ev_timestamp e \<le> to"
      using k(2) by simp
  qed
qed

lemma advance_twice:
  "advance t to = Some (evs, t') \<Longrightarrow> advance t' to = Some ([], t')"
  using advance_Some_loop_ran [of t to evs t'] loop_ran_stopped [of to t _ "[]"]
  by (auto simp add: advance_def)

subsection \<open>Timers on which the call does not return\<close>

text \<open>
  C1, failing input. \<open>TestTimer(o, timedelta(microseconds=2 * 10**17), epoch)\<close> is not
  expired and has one due moment up to \<open>epoch + 25 * 10**16\<close> microseconds, its \<open>next_time\<close>
  (in the year 8307); the moment after it is beyond \<open>datetime.max\<close>. \<open>advance\<close> appends the
  event, \<open>iterate_next\<close> leaves \<open>next_time\<close> as it was, and the loop goes on for ever: the
  call does not return the one event.
\<close>

theorem advance_one_due_moment_diverges:
  "\<not> expired (TestTimer_init ''o'' 200000000000000000 0 None) \<and>
   next_time (TestTimer_init ''o'' 200000000000000000 0 None) = 200000000000000000 \<and>
   advance (TestTimer_init ''o'' 200000000000000000 0 None) 250000000000000000 = None"
proof -
  have "stuck 250000000000000000 (TestTimer_init ''o'' 200000000000000000 0 None)"
    by (simp add: stuck_def TestTimer_init_def advance_step_def iterate_next_def
        datetime_min_def datetime_max_def)
  then have "advance (TestTimer_init ''o'' 200000000000000000 0 None) 250000000000000000 = None"
    by (rule advance_diverges)
  then show ?thesis by (simp add: TestTimer_init_def)
qed

text \<open>
  C10, failing input. The same timer has a positive interval, and
  \<open>advance(epoch + 2 * 10**17 microseconds)\<close> does not terminate: the pass after the first
  event cannot move \<open>next_time\<close> forward.
\<close>

theorem advance_positive_interval_diverges:
  "0 < interval (TestTimer_init ''o'' 200000000000000000 0 None) \<and>
   next_time (advance_step (TestTimer_init ''o'' 200000000000000000 0 None)) =
     next_time (TestTimer_init ''o'' 200000000000000000 0 None) \<and>
   advance (TestTimer_init ''o'' 200000000000000000 0 None) 200000000000000000 = None"
proof -
  have "stuck 200000000000000000 (TestTimer_init ''o'' 200000000000000000 0 None)"
    by (simp add: stuck_def TestTimer_init_def advance_step_def iterate_next_def
        datetime_min_def datetime_max_def)
  then have "advance (TestTimer_init ''o'' 200000000000000000 0 None) 200000000000000000 = None"
    by (rule advance_diverges)
  then show ?thesis
    by (simp add: TestTimer_init_def advance_step_def iterate_next_def
        datetime_min_def datetime_max_def)
qed

section \<open>The registry and \<open>advance_time\<close>\<close>

subsection \<open>Dictionaries\<close>

lemma set_delete: "set (AList.delete k al) = {p \<in> set al. fst p \<noteq> k}"
  by (auto simp add: AList.delete_eq)

lemma keys_delete: "fst ` set (AList.delete k al) = fst ` set al - {k}"
  by (auto simp add: set_delete intro: rev_image_eqI)

lemma update_fresh: "k \<notin> fst ` set al \<Longrightarrow> AList.update k v al = al @ [(k, v)]"
  by (induction al) auto

lemma set_map_entry:
  "distinct (map fst al) \<Longrightarrow> (k, v) \<in> set al \<Longrightarrow>
   set (AList.map_entry k (\<lambda>_. v') al) = insert (k, v') (set al - {(k, v)})"
proof (induction al)
  case Nil
  then show ?case by simp
next
  case (Cons p al)
  obtain k' w where p: "p = (k', w)" by (cases p)
  show ?case
  proof (cases "k' = k")
    case True
    with Cons.prems p have "w = v" "(k, v) \<notin> set al"
      by (auto intro: rev_image_eqI)
    with True p show ?thesis by auto
  next
    case False
    with Cons p show ?thesis by auto
  qed
qed

lemma keys_map_entry: "map fst (AList.map_entry k f al) = map fst al"
  by (induction al) auto

subsection \<open>\<open>_update_timing\<close>\<close>

lemma hd_sort_Min: "xs \<noteq> [] \<Longrightarrow> hd (sort xs) = Min (set xs)"
proof -
  assume ne: "xs \<noteq> []"
  then have ne': "sort xs \<noteq> []" by (metis length_0_conv length_sort)
  then obtain y ys where s: "sort xs = y # ys" by (cases "sort xs") auto
  have "sorted (sort xs)" by simp
  then have "sorted (y # ys)" using s by simp
  then have le: "\<forall>x \<in> set (y # ys). y \<le> x" by auto
  have "set (sort xs) = set xs" by simp
  then have "set (y # ys) = set xs" using s by simp
  with le have "Min (set xs) = y"
    by (intro Min_eqI) auto
  with s show ?thesis by simp
qed

lemma update_timing_fields [simp]:
  "timers (update_timing c) = timers c"
  "handlers (update_timing c) = handlers c"
  "default_handler (update_timing c) = default_handler c"
  "is_default_handler_registered (update_timing c) = is_default_handler_registered c"
  "time (update_timing c) = time c"
  by (simp_all add: update_timing_def)

lemma timing_ok_update_timing: "timing_ok (update_timing c)"
  by (simp add: timing_ok_def update_timing_def hd_sort_Min image_image case_prod_beta)

subsection \<open>One timer of the snapshot\<close>

lemma distinct_key_value:
  "distinct (map fst al) \<Longrightarrow> (k, v) \<in> set al \<Longrightarrow> (k, w) \<in> set al \<Longrightarrow> v = w"
  by (rule eq_key_imp_eq_value)

lemma remove_timer_fields [simp]:
  "timers (remove_timer c t) = AList.delete (label t) (timers c)"
  "handlers (remove_timer c t) = AList.delete (label t) (handlers c)"
  "time (remove_timer c t) = time c"
  "default_handler (remove_timer c t) = default_handler c"
  "is_default_handler_registered (remove_timer c t) = is_default_handler_registered c"
  by (simp_all add: remove_timer_def)

lemma loop_inv_step:
  assumes inv: "loop_inv to ((k, t) # rest) c"
    and adv: "advance t to = Some (tevs, t')"
  shows "map_of (handlers c) (label t') \<noteq> None"
    and "loop_inv to rest
          (if expired t'
           then remove_timer (c\<lparr>timers := AList.map_entry k (\<lambda>_. t') (timers c)\<rparr>) t'
           else c\<lparr>timers := AList.map_entry k (\<lambda>_. t') (timers c)\<rparr>)"
proof -
  from inv have d_rest: "k \<notin> fst ` set rest" "distinct (map fst rest)"
    and d: "distinct (map fst (timers c))"
    and mem: "(k, t) \<in> set (timers c)" and sub: "set rest \<subseteq> set (timers c)"
    and all: "\<forall>(k', t'') \<in> set (timers c). label t'' = k' \<and> \<not> expired t'' \<and>
                 ((k', t'') \<in> set ((k, t) # rest) \<or> to < next_time t'')"
    and keys: "fst ` set (timers c) = fst ` set (handlers c)"
    by (simp_all add: loop_inv_def)
  from all mem have lt: "label t = k" by auto
  note res = advance_result [OF adv]
  have lt': "label t' = k" using res(1) lt by simp
  from mem keys have "k \<in> fst ` set (handlers c)" by (metis fst_conv image_eqI)
  then show "map_of (handlers c) (label t') \<noteq> None"
    by (simp add: lt' map_of_eq_None_iff)
  have only: "v = t" if "(k, v) \<in> set (timers c)" for v
    using distinct_key_value [OF d that mem] .
  have set1: "set (AList.map_entry k (\<lambda>_. t') (timers c)) = insert (k, t') (set (timers c) - {(k, t)})"
    by (rule set_map_entry [OF d mem])
  have d1: "distinct (map fst (AList.map_entry k (\<lambda>_. t') (timers c)))"
    using d by (simp add: keys_map_entry)
  have rest_in: "p \<in> set (timers c) \<and> fst p \<noteq> k" if "p \<in> set rest" for p
    using that sub d_rest(1) by auto
  have others: "label t'' = k' \<and> \<not> expired t'' \<and> ((k', t'') \<in> set rest \<or> to < next_time t'')"
    if "(k', t'') \<in> set (timers c)" "k' \<noteq> k" for k' t''
    using all that by auto
  show "loop_inv to rest
          (if expired t'
           then remove_timer (c\<lparr>timers := AList.map_entry k (\<lambda>_. t') (timers c)\<rparr>) t'
           else c\<lparr>timers := AList.map_entry k (\<lambda>_. t') (timers c)\<rparr>)"
  proof (cases "expired t'")
    case True
    have set2: "set (AList.delete k (AList.map_entry k (\<lambda>_. t') (timers c))) =
        {p \<in> set (timers c). fst p \<noteq> k}"
    proof -
      have "{p \<in> insert (k, t') (set (timers c) - {(k, t)}). fst p \<noteq> k} =
          {p \<in> set (timers c). fst p \<noteq> k}"
        by (rule set_eqI) (use mem in force)
      then show ?thesis by (simp only: set_delete set1)
    qed
    have "distinct (map fst (AList.delete k (AList.map_entry k (\<lambda>_. t') (timers c))))"
      using d1 by (rule distinct_delete)
    moreover have "set rest \<subseteq> {p \<in> set (timers c). fst p \<noteq> k}"
      using rest_in by auto
    moreover have "\<forall>(k', t'') \<in> {p \<in> set (timers c). fst p \<noteq> k}.
        label t'' = k' \<and> \<not> expired t'' \<and> ((k', t'') \<in> set rest \<or> to < next_time t'')"
      using others by auto
    moreover have "fst ` {p \<in> set (timers c). fst p \<noteq> k} = fst ` set (handlers c) - {k}"
    proof -
      have "fst ` {p \<in> set (timers c). fst p \<noteq> k} = fst ` set (timers c) - {k}"
        by force
      with keys show ?thesis by simp
    qed
    ultimately show ?thesis
      using True d_rest(2) by (simp add: loop_inv_def lt' set2 keys_delete)
  next
    case False
    with res(3) have due: "to < next_time t'" by simp
    have "set rest \<subseteq> insert (k, t') (set (timers c) - {(k, t)})"
      by (fastforce dest: rest_in)
    moreover have "\<forall>(k', t'') \<in> insert (k, t') (set (timers c) - {(k, t)}).
        label t'' = k' \<and> \<not> expired t'' \<and> ((k', t'') \<in> set rest \<or> to < next_time t'')"
    proof (clarify)
      fix k' t'' assume m: "(k', t'') \<in> insert (k, t') (set (timers c) - {(k, t)})"
      show "label t'' = k' \<and> \<not> expired t'' \<and> ((k', t'') \<in> set rest \<or> to < next_time t'')"
      proof (cases "(k', t'') = (k, t')")
        case True
        then show ?thesis using lt' False due by simp
      next
        case ne: False
        with m have m': "(k', t'') \<in> set (timers c)" "(k', t'') \<noteq> (k, t)" by auto
        then have "k' \<noteq> k" using only by auto
        with m'(1) show ?thesis by (rule others)
      qed
    qed
    moreover have "fst ` insert (k, t') (set (timers c) - {(k, t)}) = fst ` set (handlers c)"
    proof -
      have "fst ` insert (k, t') (set (timers c) - {(k, t)}) = fst ` set (timers c)"
        using mem by force
      with keys show ?thesis by simp
    qed
    ultimately show ?thesis
      using False d_rest(2) d1 by (simp add: loop_inv_def set1)
  qed
qed

subsection \<open>The loop over the snapshot\<close>

lemma advance_timers_result:
  assumes "loop_inv to rest c" and "advance_timers rest to evs c = Some (out, c')"
  shows "\<exists>new. out = Returned (evs @ new) \<and> loop_inv to [] c' \<and>
           time c' = time c \<and> default_handler c' = default_handler c \<and>
           is_default_handler_registered c' = is_default_handler_registered c \<and>
           fst ` set (timers c') \<subseteq> fst ` set (timers c) \<and>
           (\<forall>(e, h) \<in> set new. \<exists>(k, t) \<in> set rest.
               ev_label e = k \<and> next_time t \<le> ev_timestamp e \<and> ev_timestamp e \<le> to)"
  using assms
proof (induction rest arbitrary: evs c)
  case Nil
  then show ?case by (intro exI [of _ "[]"]) auto
next
  case (Cons p rest)
  obtain k t where p: "p = (k, t)" by (cases p)
  from Cons.prems(2) p obtain tevs t' where adv: "advance t to = Some (tevs, t')"
    by (cases "advance t to") auto
  define c1 where "c1 = c\<lparr>timers := AList.map_entry k (\<lambda>_. t') (timers c)\<rparr>"
  define c2 where "c2 = (if expired t' then remove_timer c1 t' else c1)"
  define evs' where "evs' = evs @ map (\<lambda>event. (event, the (map_of (handlers c1) (label t')))) tevs"
  from Cons.prems(1) p have inv: "loop_inv to ((k, t) # rest) c" by simp
  have h: "map_of (handlers c1) (label t') \<noteq> None"
    using loop_inv_step(1) [OF inv adv] by (simp add: c1_def)
  have inv2: "loop_inv to rest c2"
    unfolding c2_def c1_def by (rule loop_inv_step(2) [OF inv adv])
  have rec: "advance_timers rest to evs' c2 = Some (out, c')"
    using Cons.prems(2) h unfolding p
    by (auto simp add: adv c1_def c2_def evs'_def Let_def split: if_splits)
  from Cons.IH [OF inv2 rec] obtain new where new: "out = Returned (evs' @ new)"
    "loop_inv to [] c'" "time c' = time c2" "default_handler c' = default_handler c2"
    "is_default_handler_registered c' = is_default_handler_registered c2"
    "fst ` set (timers c') \<subseteq> fst ` set (timers c2)"
    "\<forall>(e, h) \<in> set new. \<exists>(k, t) \<in> set rest.
               ev_label e = k \<and> next_time t \<le> ev_timestamp e \<and> ev_timestamp e \<le> to"
    by blast
  have f2: "time c2 = time c" "default_handler c2 = default_handler c"
    "is_default_handler_registered c2 = is_default_handler_registered c"
    by (simp_all add: c2_def c1_def)
  have k1: "fst ` set (timers c1) = fst ` set (timers c)"
    by (simp add: c1_def dom_map_entry)
  have k2: "fst ` set (timers c2) \<subseteq> fst ` set (timers c)"
    using k1 by (auto simp add: c2_def keys_delete)
  from inv have lt: "label t = k" by (auto simp add: loop_inv_def)
  note res = advance_result [OF adv]
  let ?new = "map (\<lambda>event. (event, the (map_of (handlers c1) (label t')))) tevs @ new"
  have "out = Returned (evs @ ?new)" using new(1) by (simp add: evs'_def)
  moreover have "\<forall>(e, h) \<in> set ?new. \<exists>(k, t) \<in> set (p # rest).
               ev_label e = k \<and> next_time t \<le> ev_timestamp e \<and> ev_timestamp e \<le> to"
  proof (clarify)
    fix e h assume "(e, h) \<in> set ?new"
    then consider "e \<in> set tevs" | "(e, h) \<in> set new" by auto
    then show "\<exists>(k, t) \<in> set (p # rest).
               ev_label e = k \<and> next_time t \<le> ev_timestamp e \<and> ev_timestamp e \<le> to"
    proof cases
      case 1
      with res(4) lt have "ev_label e = k \<and> next_time t \<le> ev_timestamp e \<and> ev_timestamp e \<le> to"
        by simp
      then show ?thesis unfolding p by simp
    next
      case 2
      with new(7) show ?thesis by fastforce
    qed
  qed
  ultimately show ?case
    using new(2-6) f2 k2 by (intro exI [of _ ?new]) auto
qed

subsection \<open>The invariant of the clock\<close>

lemma clock_inv_init: "clock_inv (TestClock_init t0)"
  by (simp add: clock_inv_def timing_ok_def TestClock_init_def)

lemma clock_inv_update_timing:
  assumes "distinct (map fst (timers c))"
    and "\<forall>(k, t) \<in> set (timers c). label t = k \<and> \<not> expired t"
    and "fst ` set (timers c) = fst ` set (handlers c)"
  shows "clock_inv (update_timing c)"
  using assms by (simp add: clock_inv_def timing_ok_update_timing)

lemma clock_inv_cancel_timer: "clock_inv c \<Longrightarrow> clock_inv (cancel_timer c lbl)"
  unfolding cancel_timer_def Let_def
  by (rule clock_inv_update_timing)
     (auto simp add: clock_inv_def distinct_delete set_delete keys_delete)

lemma clock_inv_fold_cancel:
  "clock_inv c \<Longrightarrow> clock_inv (fold (\<lambda>lbl c. cancel_timer c lbl) lbls c)"
  by (induction lbls arbitrary: c) (simp_all add: clock_inv_cancel_timer)

lemma clock_inv_cancel_all_timers: "clock_inv c \<Longrightarrow> clock_inv (cancel_all_timers c)"
  by (simp add: cancel_all_timers_def clock_inv_fold_cancel)

lemma clock_inv_add_timer:
  assumes "clock_inv c" and "map_of (timers c) (label t) = None" and "\<not> expired t"
  shows "clock_inv (add_timer c t h)"
proof -
  from assms(2) have fresh: "label t \<notin> fst ` set (timers c)"
    by (simp add: map_of_eq_None_iff)
  with assms(1) have fresh': "label t \<notin> fst ` set (handlers c)"
    by (simp add: clock_inv_def)
  show ?thesis
    unfolding add_timer_def
    by (rule clock_inv_update_timing)
       (use assms(1,3) fresh fresh' in \<open>auto simp add: clock_inv_def update_fresh\<close>)
qed

lemma clock_inv_set_time_alert:
  "clock_inv c \<Longrightarrow> clock_inv (snd (set_time_alert c lbl alert_time h))"
  by (auto simp add: set_time_alert_def Let_def Condition_not_in_def get_timer_def
      TestTimer_init_def intro!: clock_inv_add_timer)

lemma clock_inv_set_timer:
  "clock_inv c \<Longrightarrow> clock_inv (snd (set_timer c lbl ival start stop h))"
  by (auto simp add: set_timer_def Let_def Condition_not_in_def get_timer_repeating_def
      TestTimer_init_def intro!: clock_inv_add_timer)

lemma clock_inv_cong:
  "timers c' = timers c \<Longrightarrow> handlers c' = handlers c \<Longrightarrow> has_timers c' = has_timers c \<Longrightarrow>
   next_event_time c' = next_event_time c \<Longrightarrow> clock_inv c' = clock_inv c"
  by (simp add: clock_inv_def timing_ok_def)

lemma clock_inv_set_time: "clock_inv c \<Longrightarrow> clock_inv (set_time c to)"
  by (simp add: set_time_def clock_inv_cong [of "c\<lparr>time := to\<rparr>" c])

lemma clock_inv_register_default_handler:
  "clock_inv c \<Longrightarrow> clock_inv (snd (register_default_handler c h))"
  by (simp add: register_default_handler_def
      clock_inv_cong [of "c\<lparr>default_handler := h, is_default_handler_registered := True\<rparr>" c])

subsection \<open>\<open>advance_time\<close>\<close>

lemma clock_inv_loop_inv: "clock_inv c \<Longrightarrow> loop_inv to (timers c) c"
  by (auto simp add: clock_inv_def loop_inv_def)

lemma loop_inv_Nil:
  assumes "loop_inv to [] c"
  shows "clock_inv ((update_timing c)\<lparr>time := to'\<rparr>)"
    and "\<forall>(k, t) \<in> set (timers c). to < next_time t"
proof -
  have "clock_inv (update_timing c)"
    by (rule clock_inv_update_timing) (use assms in \<open>auto simp add: loop_inv_def\<close>)
  then show "clock_inv ((update_timing c)\<lparr>time := to'\<rparr>)"
    by (simp add: clock_inv_cong [of "(update_timing c)\<lparr>time := to'\<rparr>" "update_timing c"])
  show "\<forall>(k, t) \<in> set (timers c). to < next_time t"
    using assms by (auto simp add: loop_inv_def)
qed

lemma sorted_items_sorted: "sorted (map (\<lambda>(e, h). ev_timestamp e) (sorted_items events))"
  by (simp add: sorted_items_def)

lemma set_sorted_items: "set (sorted_items events) = set events"
  by (simp add: sorted_items_def)

lemma clock_inv_next_event:
  "clock_inv c \<Longrightarrow> has_timers c \<Longrightarrow>
   timers c \<noteq> [] \<and> next_event_time c = Some (Min ((\<lambda>(k, t). next_time t) ` set (timers c)))"
  by (simp add: clock_inv_def timing_ok_def)

lemma advance_time_idle:
  "\<not> has_timers c \<or> (\<exists>n. next_event_time c = Some n \<and> to < n) \<Longrightarrow>
   advance_time c to = Some (Returned [], c)"
  by (auto simp add: advance_time_def)

lemma advance_time_work:
  assumes inv: "clock_inv c" and work: "has_timers c" "next_event_time c = Some n" "n \<le> to"
    and adv: "advance_time c to = Some (out, c')"
  shows "\<exists>evs. out = Returned evs \<and> clock_inv c' \<and> time c' = to \<and>
           default_handler c' = default_handler c \<and>
           is_default_handler_registered c' = is_default_handler_registered c \<and>
           fst ` set (timers c') \<subseteq> fst ` set (timers c) \<and>
           (\<forall>(k, t) \<in> set (timers c'). to < next_time t) \<and>
           sorted (map (\<lambda>(e, h). ev_timestamp e) evs) \<and>
           (\<forall>(e, h) \<in> set evs. \<exists>(k, t) \<in> set (timers c).
               ev_label e = k \<and> next_time t \<le> ev_timestamp e \<and> ev_timestamp e \<le> to)"
proof -
  from adv work obtain out1 c1 where loop: "advance_timers (timers c) to [] c = Some (out1, c1)"
    by (cases "advance_timers (timers c) to [] c") (auto simp add: advance_time_def)
  from advance_timers_result [OF clock_inv_loop_inv [OF inv] loop]
  obtain new where new: "out1 = Returned new" "loop_inv to [] c1" "time c1 = time c"
    "default_handler c1 = default_handler c"
    "is_default_handler_registered c1 = is_default_handler_registered c"
    "fst ` set (timers c1) \<subseteq> fst ` set (timers c)"
    "\<forall>(e, h) \<in> set new. \<exists>(k, t) \<in> set (timers c).
               ev_label e = k \<and> next_time t \<le> ev_timestamp e \<and> ev_timestamp e \<le> to"
    by auto
  from adv work loop new(1) have out: "out = Returned (sorted_items new)"
    and c': "c' = (update_timing c1)\<lparr>time := to\<rparr>"
    by (simp_all add: advance_time_def)
  note fin = loop_inv_Nil(1) [OF new(2), of to] loop_inv_Nil(2) [OF new(2)]
  show ?thesis
    using out fin new(4-7) unfolding c'
    by (intro exI [of _ "sorted_items new"]) (simp add: sorted_items_sorted set_sorted_items)
qed

lemma advance_time_cases:
  assumes "clock_inv c"
  shows "(\<not> has_timers c \<or> (\<exists>n. next_event_time c = Some n \<and> to < n)) \<or>
         (\<exists>n. has_timers c \<and> next_event_time c = Some n \<and> n \<le> to)"
proof (cases "has_timers c")
  case True
  with assms obtain n where "next_event_time c = Some n"
    using clock_inv_next_event by blast
  with True show ?thesis by (cases "to < n") auto
next
  case False
  then show ?thesis by simp
qed

lemma advance_time_result:
  assumes inv: "clock_inv c" and adv: "advance_time c to = Some (out, c')"
  shows "\<exists>evs. out = Returned evs \<and> clock_inv c' \<and>
           fst ` set (timers c') \<subseteq> fst ` set (timers c) \<and>
           sorted (map (\<lambda>(e, h). ev_timestamp e) evs) \<and>
           (\<forall>(e, h) \<in> set evs. \<exists>(k, t) \<in> set (timers c).
               ev_label e = k \<and> next_time t \<le> ev_timestamp e \<and> ev_timestamp e \<le> to)"
proof -
  consider (idle) "\<not> has_timers c \<or> (\<exists>n. next_event_time c = Some n \<and> to < n)"
    | (work) n where "has_timers c" "next_event_time c = Some n" "n \<le> to"
    using advance_time_cases [OF inv, of to] by blast
  then show ?thesis
  proof cases
  case idle
  from advance_time_idle [OF idle] adv inv show ?thesis by simp
next
  case (work n)
  from advance_time_work [OF inv work adv] show ?thesis by blast
qed
qed

lemma advance_time_again:
  assumes inv: "clock_inv c" and adv: "advance_time c to = Some (Returned evs, c')"
  shows "advance_time c' to = Some (Returned [], c')"
proof -
  consider (idle) "\<not> has_timers c \<or> (\<exists>n. next_event_time c = Some n \<and> to < n)"
    | (work) n where "has_timers c" "next_event_time c = Some n" "n \<le> to"
    using advance_time_cases [OF inv, of to] by blast
  then show ?thesis
  proof cases
  case idle
  from advance_time_idle [OF idle] adv show ?thesis by simp
next
  case (work n)
  from advance_time_work [OF inv work adv]
  have inv': "clock_inv c'" and due: "\<forall>(k, t) \<in> set (timers c'). to < next_time t" by auto
  show ?thesis
  proof (cases "has_timers c'")
    case True
    from clock_inv_next_event [OF inv' True]
    have ne: "timers c' \<noteq> []"
      and nx: "next_event_time c' = Some (Min ((\<lambda>(k, t). next_time t) ` set (timers c')))"
      by simp_all
    have "to < Min ((\<lambda>(k, t). next_time t) ` set (timers c'))"
      using ne due by (subst Min_gr_iff) auto
    with nx show ?thesis by (intro advance_time_idle) simp
  next
    case False
    then show ?thesis by (intro advance_time_idle) simp
  qed
qed
qed

subsection \<open>Sequences of operations\<close>

lemma clock_inv_run_op: "clock_inv c \<Longrightarrow> run_op c x = Some c' \<Longrightarrow> clock_inv c'"
proof (cases x)
  case (AdvanceTime to)
  assume "clock_inv c" "run_op c x = Some c'"
  with AdvanceTime obtain out where "advance_time c to = Some (out, c')" by auto
  from advance_time_result [OF \<open>clock_inv c\<close> this] show ?thesis by blast
qed (auto simp add: clock_inv_set_time_alert clock_inv_set_timer clock_inv_cancel_timer
      clock_inv_cancel_all_timers clock_inv_set_time clock_inv_register_default_handler)

lemma clock_inv_run_ops: "clock_inv c \<Longrightarrow> run_ops c xs = Some c' \<Longrightarrow> clock_inv c'"
proof (induction xs arbitrary: c)
  case Nil
  then show ?case by simp
next
  case (Cons x xs)
  from Cons.prems(2) obtain c1 where c1: "run_op c x = Some c1" "run_ops c1 xs = Some c'"
    by (cases "run_op c x") auto
  from clock_inv_run_op [OF Cons.prems(1) c1(1)] c1(2) show ?case by (rule Cons.IH)
qed

lemma reachable_clock_inv: "run_ops (TestClock_init t0) xs = Some c \<Longrightarrow> clock_inv c"
  using clock_inv_init by (rule clock_inv_run_ops)

subsection \<open>Keys of the registry\<close>

lemma add_timer_fields [simp]:
  "timers (add_timer c t h) = AList.update (label t) t (timers c)"
  "handlers (add_timer c t h) = AList.update (label t) h (handlers c)"
  "time (add_timer c t h) = time c"
  by (simp_all add: add_timer_def)

lemma cancel_timer_fields [simp]:
  "timers (cancel_timer c lbl) = AList.delete lbl (timers c)"
  "handlers (cancel_timer c lbl) = AList.delete lbl (handlers c)"
  "time (cancel_timer c lbl) = time c"
  by (simp_all add: cancel_timer_def)

lemma keys_fold_cancel:
  "fst ` set (timers (fold (\<lambda>lbl c. cancel_timer c lbl) lbls c)) \<subseteq> fst ` set (timers c)"
proof (induction lbls arbitrary: c)
  case Nil
  show ?case by simp
next
  case (Cons l lbls)
  have "fst ` set (timers (fold (\<lambda>lbl c. cancel_timer c lbl) lbls (cancel_timer c l)))
      \<subseteq> fst ` set (timers (cancel_timer c l))" by (rule Cons.IH)
  also have "\<dots> \<subseteq> fst ` set (timers c)" by (simp add: keys_delete)
  finally show ?case by simp
qed

lemma keys_set_time_alert:
  "fst ` set (timers (snd (set_time_alert c lbl alert_time h))) \<subseteq> insert lbl (fst ` set (timers c))"
  by (auto simp add: set_time_alert_def Let_def get_timer_def TestTimer_init_def dom_update)

lemma keys_set_timer:
  "fst ` set (timers (snd (set_timer c lbl ival start stop h))) \<subseteq> insert lbl (fst ` set (timers c))"
  by (auto simp add: set_timer_def Let_def get_timer_repeating_def TestTimer_init_def dom_update)

lemma set_time_alert_raised:
  "fst (set_time_alert c lbl alert_time h) \<noteq> Returned () \<Longrightarrow> snd (set_time_alert c lbl alert_time h) = c"
  by (auto simp add: set_time_alert_def Let_def)

lemma set_timer_raised:
  "fst (set_timer c lbl ival start stop h) \<noteq> Returned () \<Longrightarrow> snd (set_timer c lbl ival start stop h) = c"
  by (auto simp add: set_timer_def Let_def)

lemma run_op_keeps_absent:
  assumes inv: "clock_inv c" and absent: "L \<notin> fst ` set (timers c)"
    and nr: "\<not> registers L c x" and run: "run_op c x = Some c'"
  shows "L \<notin> fst ` set (timers c')"
proof (cases x)
  case (SetTimeAlert lbl alert_time h)
  show ?thesis
  proof (cases "fst (set_time_alert c lbl alert_time h) = Returned ()")
    case True
    with nr SetTimeAlert have "lbl \<noteq> L" by simp
    with keys_set_time_alert [of c lbl alert_time h] absent run SetTimeAlert show ?thesis by auto
  next
    case False
    from set_time_alert_raised [OF this] run SetTimeAlert absent show ?thesis by simp
  qed
next
  case (SetTimer lbl ival start stop h)
  show ?thesis
  proof (cases "fst (set_timer c lbl ival start stop h) = Returned ()")
    case True
    with nr SetTimer have "lbl \<noteq> L" by simp
    with keys_set_timer [of c lbl ival start stop h] absent run SetTimer show ?thesis by auto
  next
    case False
    from set_timer_raised [OF this] run SetTimer absent show ?thesis by simp
  qed
next
  case (CancelTimer lbl)
  with run have "c' = cancel_timer c lbl" by simp
  then have "fst ` set (timers c') = fst ` set (timers c) - {lbl}"
    by (simp add: keys_delete)
  with absent show ?thesis by simp
next
  case CancelAllTimers
  with run absent keys_fold_cancel [of "get_timer_labels c" c] show ?thesis
    by (auto simp add: cancel_all_timers_def)
next
  case (AdvanceTime to)
  with run obtain out where "advance_time c to = Some (out, c')" by auto
  from advance_time_result [OF inv this] absent show ?thesis by blast
next
  case (SetTime to)
  with run absent show ?thesis by (auto simp add: set_time_def)
next
  case (RegisterDefaultHandler h)
  with run have "timers c' = timers c"
    by (auto simp add: register_default_handler_def split: if_splits)
  with absent show ?thesis by simp
qed

lemma run_ops_keeps_absent:
  assumes "clock_inv c" "L \<notin> fst ` set (timers c)" "not_registered L c xs" "run_ops c xs = Some c'"
  shows "clock_inv c' \<and> L \<notin> fst ` set (timers c')"
  using assms
proof (induction xs arbitrary: c)
  case Nil
  then show ?case by simp
next
  case (Cons x xs)
  from Cons.prems(4) obtain c1 where c1: "run_op c x = Some c1" "run_ops c1 xs = Some c'"
    by (cases "run_op c x") auto
  from Cons.prems(3) c1(1) have nr: "\<not> registers L c x" "not_registered L c1 xs" by simp_all
  have "clock_inv c1" using Cons.prems(1) c1(1) by (rule clock_inv_run_op)
  moreover have "L \<notin> fst ` set (timers c1)"
    using Cons.prems(1,2) nr(1) c1(1) by (rule run_op_keeps_absent)
  ultimately show ?case using nr(2) c1(2) by (rule Cons.IH)
qed

section \<open>The claims about the clock\<close>

lemma example_reachable: "run_ops (TestClock_init 100) example_ops = Some example_clock"
  unfolding example_ops_def example_clock_def by code_simp

lemma example_advance:
  "advance_time example_clock 112 =
     Some (Returned [(\<lparr>ev_label = ''a'', ev_timestamp = 105\<rparr>, Callable 1),
                     (\<lparr>ev_label = ''r'', ev_timestamp = 110\<rparr>, Callable 2)],
           example_clock')"
  unfolding example_clock_def example_clock'_def by code_simp

text \<open>
  C3, failing input. On a clock at the epoch an alert is set for \<open>epoch + 2 * 10**17\<close>
  microseconds and the clock is advanced to that time. The clock has timers and the time
  is not before \<open>next_event_time\<close>, so the call has work to do; the timer of the alert never
  comes back from \<open>advance\<close>, and the call reaches neither \<open>self._time = to_time\<close> nor its
  return. The same holds of an alert set for the time of the clock, whose interval is
  zero, when the clock is advanced to that time.
\<close>

theorem advance_time_far_alert_diverges:
  "fst (set_time_alert (TestClock_init 0) ''a'' 200000000000000000 (Some (Callable 0))) = Returned () \<and>
   has_timers (snd (set_time_alert (TestClock_init 0) ''a'' 200000000000000000 (Some (Callable 0)))) \<and>
   next_event_time (snd (set_time_alert (TestClock_init 0) ''a'' 200000000000000000 (Some (Callable 0)))) =
     Some 200000000000000000 \<and>
   advance_time (snd (set_time_alert (TestClock_init 0) ''a'' 200000000000000000 (Some (Callable 0))))
     200000000000000000 = None \<and>
   advance_time (snd (set_time_alert (TestClock_init 0) ''z'' 0 (Some (Callable 0)))) 0 = None"
proof -
  let ?t = "\<lparr>label = ''a'', interval = 200000000000000000, start_time = 0,
             next_time = 200000000000000000, stop_time = Some 200000000000000000,
             expired = False\<rparr>"
  have c: "set_time_alert (TestClock_init 0) ''a'' 200000000000000000 (Some (Callable 0)) =
      (Returned (),
       \<lparr>timers = [(''a'', ?t)], handlers = [(''a'', Callable 0)], default_handler = None,
        next_event_time = Some 200000000000000000, has_timers = True,
        is_default_handler_registered = False, time = 0\<rparr>)"
    by code_simp
  have "stuck 200000000000000000 ?t"
    by (simp add: stuck_def advance_step_def iterate_next_def datetime_min_def datetime_max_def)
  then have a: "advance ?t 200000000000000000 = None" by (rule advance_diverges)
  let ?z = "\<lparr>label = ''z'', interval = 0, start_time = 0, next_time = 0, stop_time = Some 0,
             expired = False\<rparr>"
  have cz: "set_time_alert (TestClock_init 0) ''z'' 0 (Some (Callable 0)) =
      (Returned (),
       \<lparr>timers = [(''z'', ?z)], handlers = [(''z'', Callable 0)], default_handler = None,
        next_event_time = Some 0, has_timers = True,
        is_default_handler_registered = False, time = 0\<rparr>)"
    by code_simp
  have "stuck 0 ?z"
    by (simp add: stuck_def advance_step_def iterate_next_def datetime_min_def datetime_max_def)
  then have z: "advance ?z 0 = None" by (rule advance_diverges)
  from a z show ?thesis by (simp add: c cz advance_time_def)
qed

text \<open>
  C4. After \<open>advance_time(to)\<close> has returned on a clock reached by the public operations, a
  second \<open>advance_time(to)\<close> returns no event and leaves the clock as it is. After
  \<open>advance(to_time)\<close> has returned on a timer, a second \<open>advance(to_time)\<close> returns no
  event and leaves the timer as it is.
\<close>

theorem advance_time_idempotent:
  "(run_ops (TestClock_init t0) ops = Some c \<and> advance_time c to = Some (Returned evs, c') \<longrightarrow>
      advance_time c' to = Some (Returned [], c')) \<and>
   (advance t to_time = Some (tevs, t') \<longrightarrow> advance t' to_time = Some ([], t'))"
  using advance_time_again [of c to evs c'] reachable_clock_inv [of t0 ops c]
    advance_twice [of t to_time tevs t']
  by blast

theorem advance_time_idempotent_witness:
  "run_ops (TestClock_init 100) example_ops = Some example_clock \<and>
   advance_time example_clock 112 =
     Some (Returned [(\<lparr>ev_label = ''a'', ev_timestamp = 105\<rparr>, Callable 1),
                     (\<lparr>ev_label = ''r'', ev_timestamp = 110\<rparr>, Callable 2)],
           example_clock') \<and>
   advance_time example_clock' 112 = Some (Returned [], example_clock') \<and>
   advance (TestTimer_init ''a'' 2 0 (Some 5)) 10 =
     Some ([\<lparr>ev_label = ''a'', ev_timestamp = 2\<rparr>, \<lparr>ev_label = ''a'', ev_timestamp = 4\<rparr>],
           \<lparr>label = ''a'', interval = 2, start_time = 0, next_time = 6, stop_time = Some 5,
            expired = True\<rparr>) \<and>
   advance \<lparr>label = ''a'', interval = 2, start_time = 0, next_time = 6, stop_time = Some 5,
            expired = True\<rparr> 10 =
     Some ([], \<lparr>label = ''a'', interval = 2, start_time = 0, next_time = 6, stop_time = Some 5,
            expired = True\<rparr>)"
proof -
  have e: "advance (TestTimer_init ''a'' 2 0 (Some 5)) 10 =
     Some ([\<lparr>ev_label = ''a'', ev_timestamp = 2\<rparr>, \<lparr>ev_label = ''a'', ev_timestamp = 4\<rparr>],
           \<lparr>label = ''a'', interval = 2, start_time = 0, next_time = 6, stop_time = Some 5,
            expired = True\<rparr>)"
    by code_simp
  from advance_time_idempotent [where ?t0.0 = 100 and ops = example_ops and c = example_clock
      and to = 112 and c' = example_clock' and t = "TestTimer_init ''a'' 2 0 (Some 5)"
      and to_time = 10] example_reachable example_advance e
  show ?thesis by simp
qed

text \<open>
  C5. After every sequence of public operations on a new clock, each of which returned
  or raised, \<open>_timers\<close> and \<open>_handlers\<close> have the same keys.
\<close>

theorem registry_keys_agree:
  "run_ops (TestClock_init t0) ops = Some c \<Longrightarrow> set (map fst (timers c)) = set (map fst (handlers c))"
  using reachable_clock_inv [of t0 ops c] by (simp add: clock_inv_def)

theorem registry_keys_agree_witness:
  "run_ops (TestClock_init 100) example_ops = Some example_clock \<and>
   set (map fst (timers example_clock)) = set (map fst (handlers example_clock))"
  using registry_keys_agree [of 100 example_ops example_clock] example_reachable by simp

text \<open>
  C6. After every sequence of public operations on a new clock, \<open>has_timers\<close> holds
  exactly when \<open>_timers\<close> is not empty; \<open>next_event_time\<close> is then the least \<open>next_time\<close> of
  the registered timers, and \<open>None\<close> when there is none.
\<close>

theorem timing_cache_consistent:
  "run_ops (TestClock_init t0) ops = Some c \<Longrightarrow>
     (has_timers c \<longleftrightarrow> timers c \<noteq> []) \<and>
     (timers c \<noteq> [] \<longrightarrow>
        next_event_time c = Some (Min ((\<lambda>(k, t). next_time t) ` set (timers c)))) \<and>
     (timers c = [] \<longrightarrow> next_event_time c = None)"
  using reachable_clock_inv [of t0 ops c] by (simp add: clock_inv_def timing_ok_def)

theorem timing_cache_consistent_witness:
  "run_ops (TestClock_init 100) example_ops = Some example_clock \<and>
   has_timers example_clock \<and> timers example_clock \<noteq> [] \<and>
   next_event_time example_clock = Some 105 \<and>
   Min ((\<lambda>(k, t). next_time t) ` set (timers example_clock)) = 105"
  using timing_cache_consistent [of 100 example_ops example_clock] example_reachable
  by (simp add: example_clock_def)




text \<open>
  C7. A setter called with a label that is already a key, an alert time in the past, an
  interval that is not positive, a stop time not after the start or before the first fire,
  or without a callable handler raises \<open>ConditionFailed\<close> and leaves the clock as it was;
  whenever a setter does not return, the clock is as it was.
\<close>

theorem setters_atomic:
  "((lbl \<in> fst ` set (timers c) \<or> lbl \<in> fst ` set (handlers c) \<or> alert_time < time_now c \<or>
     \<not> Condition_type_Callable (if h = None then default_handler c else h))
      \<longrightarrow> set_time_alert c lbl alert_time h = (Raised ConditionFailed, c)) \<and>
   ((lbl \<in> fst ` set (timers c) \<or> lbl \<in> fst ` set (handlers c) \<or> ival \<le> 0 \<or>
     \<not> Condition_type_Callable (if h = None then default_handler c else h) \<or>
     (\<exists>s. stop = Some s \<and>
        (s \<le> (case start of None \<Rightarrow> time_now c | Some x \<Rightarrow> x) \<or>
         s < (case start of None \<Rightarrow> time_now c | Some x \<Rightarrow> x) + ival)))
      \<longrightarrow> set_timer c lbl ival start stop h = (Raised ConditionFailed, c)) \<and>
   (fst (set_time_alert c lbl alert_time h) \<noteq> Returned ()
      \<longrightarrow> set_time_alert c lbl alert_time h = (Raised ConditionFailed, c)) \<and>
   (fst (set_timer c lbl ival start stop h) \<noteq> Returned ()
      \<longrightarrow> set_timer c lbl ival start stop h = (Raised ConditionFailed, c))"
proof (intro conjI)
  show "(lbl \<in> fst ` set (timers c) \<or> lbl \<in> fst ` set (handlers c) \<or> alert_time < time_now c \<or>
     \<not> Condition_type_Callable (if h = None then default_handler c else h))
      \<longrightarrow> set_time_alert c lbl alert_time h = (Raised ConditionFailed, c)"
    by (simp add: set_time_alert_def Let_def Condition_not_in_def map_of_eq_None_iff)
  show "(lbl \<in> fst ` set (timers c) \<or> lbl \<in> fst ` set (handlers c) \<or> ival \<le> 0 \<or>
     \<not> Condition_type_Callable (if h = None then default_handler c else h) \<or>
     (\<exists>s. stop = Some s \<and>
        (s \<le> (case start of None \<Rightarrow> time_now c | Some x \<Rightarrow> x) \<or>
         s < (case start of None \<Rightarrow> time_now c | Some x \<Rightarrow> x) + ival)))
      \<longrightarrow> set_timer c lbl ival start stop h = (Raised ConditionFailed, c)"
    unfolding set_timer_def Let_def Condition_not_in_def map_of_eq_None_iff
    by (cases start; cases stop; simp; linarith?)
  show "fst (set_time_alert c lbl alert_time h) \<noteq> Returned ()
      \<longrightarrow> set_time_alert c lbl alert_time h = (Raised ConditionFailed, c)"
    by (simp add: set_time_alert_def Let_def)
  show "fst (set_timer c lbl ival start stop h) \<noteq> Returned ()
      \<longrightarrow> set_timer c lbl ival start stop h = (Raised ConditionFailed, c)"
    by (simp add: set_timer_def Let_def)
qed

theorem setters_atomic_witness:
  "''a'' \<in> fst ` set (timers example_clock) \<and>
   set_time_alert example_clock ''a'' 200 (Some (Callable 3)) = (Raised ConditionFailed, example_clock) \<and>
   set_timer example_clock ''a'' 10 None None (Some (Callable 3)) = (Raised ConditionFailed, example_clock) \<and>
   99 < time_now example_clock \<and>
   set_time_alert example_clock ''b'' 99 None = (Raised ConditionFailed, example_clock) \<and>
   set_timer example_clock ''b'' 0 (Some 100) (Some 105) None = (Raised ConditionFailed, example_clock)"
proof -
  have dup: "''a'' \<in> fst ` set (timers example_clock)"
    by (simp add: example_clock_def)
  have past: "99 < time_now example_clock"
    by (simp add: example_clock_def time_now_def)
  have 1: "set_time_alert example_clock ''a'' 200 (Some (Callable 3)) =
      (Raised ConditionFailed, example_clock)"
    by (rule setters_atomic [of "''a''" example_clock 200 "Some (Callable 3)" 10 None None,
          THEN conjunct1, rule_format]) (rule disjI1, rule dup)
  have 2: "set_timer example_clock ''a'' 10 None None (Some (Callable 3)) =
      (Raised ConditionFailed, example_clock)"
    by (rule setters_atomic [of "''a''" example_clock 200 "Some (Callable 3)" 10 None None,
          THEN conjunct2, THEN conjunct1, rule_format]) (rule disjI1, rule dup)
  have 3: "set_time_alert example_clock ''b'' 99 None = (Raised ConditionFailed, example_clock)"
    by (rule setters_atomic [of "''b''" example_clock 99 None 0 "Some 105" "Some 100",
          THEN conjunct1, rule_format]) (rule disjI2, rule disjI2, rule disjI1, rule past)
  have 4: "set_timer example_clock ''b'' 0 (Some 100) (Some 105) None =
      (Raised ConditionFailed, example_clock)"
    by (rule setters_atomic [of "''b''" example_clock 99 None 0 "Some 105" "Some 100",
          THEN conjunct2, THEN conjunct1, rule_format]) (rule disjI2, rule disjI2, rule disjI1, simp)
  from dup past 1 2 3 4 show ?thesis by (intro conjI)
qed

text \<open>
  C8, counterexample. An alert at exactly the time of a new clock is accepted and
  registers a timer of interval zero.
\<close>

theorem zero_interval_alert_counterexample:
  "fst (set_time_alert (TestClock_init 0) ''a'' 0 (Some (Callable 0))) = Returned () \<and>
   map (interval \<circ> snd) (timers (snd (set_time_alert (TestClock_init 0) ''a'' 0 (Some (Callable 0))))) = [0]"
  by code_simp

text \<open>
  C8, amended. A timer that a returning \<open>set_timer\<close> registers has the positive interval
  of the call. A timer that a returning \<open>set_time_alert\<close> registers has the interval
  \<open>alert_time - time_now()\<close>, which is not negative. An alert at exactly the time of the
  clock, with a new label and a callable handler, is accepted, and its timer has the
  interval zero.
\<close>

theorem registered_intervals:
  "(set_timer c lbl ival start stop h = (Returned (), c') \<longrightarrow>
      (\<exists>t. map_of (timers c') lbl = Some t \<and> interval t = ival \<and> 0 < interval t)) \<and>
   (set_time_alert c lbl alert_time h = (Returned (), c'') \<longrightarrow>
      (\<exists>t. map_of (timers c'') lbl = Some t \<and> interval t = alert_time - time_now c \<and> 0 \<le> interval t)) \<and>
   (lbl \<notin> fst ` set (timers c) \<and> lbl \<notin> fst ` set (handlers c) \<and>
    Condition_type_Callable (if h = None then default_handler c else h) \<longrightarrow>
      fst (set_time_alert c lbl (time_now c) h) = Returned () \<and>
      (\<exists>t. map_of (timers (snd (set_time_alert c lbl (time_now c) h))) lbl = Some t \<and> interval t = 0))"
proof (intro conjI)
  show "set_timer c lbl ival start stop h = (Returned (), c') \<longrightarrow>
      (\<exists>t. map_of (timers c') lbl = Some t \<and> interval t = ival \<and> 0 < interval t)"
    by (auto simp add: set_timer_def Let_def get_timer_repeating_def TestTimer_init_def
        update_conv' split: if_splits)
  show "set_time_alert c lbl alert_time h = (Returned (), c'') \<longrightarrow>
      (\<exists>t. map_of (timers c'') lbl = Some t \<and> interval t = alert_time - time_now c \<and> 0 \<le> interval t)"
    by (auto simp add: set_time_alert_def Let_def get_timer_def TestTimer_init_def
        update_conv' split: if_splits)
  show "lbl \<notin> fst ` set (timers c) \<and> lbl \<notin> fst ` set (handlers c) \<and>
    Condition_type_Callable (if h = None then default_handler c else h) \<longrightarrow>
      fst (set_time_alert c lbl (time_now c) h) = Returned () \<and>
      (\<exists>t. map_of (timers (snd (set_time_alert c lbl (time_now c) h))) lbl = Some t \<and> interval t = 0)"
    by (simp add: set_time_alert_def Let_def get_timer_def TestTimer_init_def Condition_not_in_def
        map_of_eq_None_iff update_conv')
qed

theorem registered_intervals_witness:
  "set_timer example_clock ''b'' 7 None None (Some (Callable 3)) =
     (Returned (), snd (set_timer example_clock ''b'' 7 None None (Some (Callable 3)))) \<and>
   map_option interval
     (map_of (timers (snd (set_timer example_clock ''b'' 7 None None (Some (Callable 3))))) ''b'') = Some 7 \<and>
   set_time_alert example_clock ''b'' 103 (Some (Callable 3)) =
     (Returned (), snd (set_time_alert example_clock ''b'' 103 (Some (Callable 3)))) \<and>
   map_option interval
     (map_of (timers (snd (set_time_alert example_clock ''b'' 103 (Some (Callable 3))))) ''b'') = Some 3 \<and>
   ''b'' \<notin> fst ` set (timers example_clock) \<and> ''b'' \<notin> fst ` set (handlers example_clock) \<and>
   fst (set_time_alert example_clock ''b'' (time_now example_clock) (Some (Callable 3))) = Returned () \<and>
   map_option interval
     (map_of (timers (snd (set_time_alert example_clock ''b'' (time_now example_clock)
        (Some (Callable 3))))) ''b'') = Some 0"
proof -
  have t: "set_timer example_clock ''b'' 7 None None (Some (Callable 3)) =
     (Returned (), snd (set_timer example_clock ''b'' 7 None None (Some (Callable 3))))"
    unfolding example_clock_def by code_simp
  have a: "set_time_alert example_clock ''b'' 103 (Some (Callable 3)) =
     (Returned (), snd (set_time_alert example_clock ''b'' 103 (Some (Callable 3))))"
    unfolding example_clock_def by code_simp
  have f: "''b'' \<notin> fst ` set (timers example_clock)" "''b'' \<notin> fst ` set (handlers example_clock)"
    by (simp_all add: example_clock_def)
  have n: "time_now example_clock = 100" by (simp add: example_clock_def time_now_def)
  note r = registered_intervals [of example_clock "''b''" 7 None None "Some (Callable 3)"
      "snd (set_timer example_clock ''b'' 7 None None (Some (Callable 3)))" 103
      "snd (set_time_alert example_clock ''b'' 103 (Some (Callable 3)))"]
  from r [THEN conjunct1, rule_format, OF t]
  have 1: "map_option interval
     (map_of (timers (snd (set_timer example_clock ''b'' 7 None None (Some (Callable 3))))) ''b'') = Some 7"
    by auto
  from r [THEN conjunct2, THEN conjunct1, rule_format, OF a]
  have 2: "map_option interval
     (map_of (timers (snd (set_time_alert example_clock ''b'' 103 (Some (Callable 3))))) ''b'') = Some 3"
    by (auto simp add: n)
  have "fst (set_time_alert example_clock ''b'' (time_now example_clock) (Some (Callable 3))) = Returned () \<and>
      (\<exists>t. map_of (timers (snd (set_time_alert example_clock ''b'' (time_now example_clock)
          (Some (Callable 3))))) ''b'' = Some t \<and> interval t = 0)"
    by (rule r [THEN conjunct2, THEN conjunct2, rule_format]) (simp add: f)
  then have 3: "fst (set_time_alert example_clock ''b'' (time_now example_clock) (Some (Callable 3))) = Returned ()"
    and 4: "map_option interval
     (map_of (timers (snd (set_time_alert example_clock ''b'' (time_now example_clock)
        (Some (Callable 3))))) ''b'') = Some 0"
    by auto
  from t a f 1 2 3 4 show ?thesis by (intro conjI)
qed

text \<open>
  C9. On a clock reached by the public operations, \<open>cancel_timer(L)\<close> is called; any
  operations follow, none of them a setter that registers \<open>L\<close> again. No event of a later
  \<open>advance_time\<close> carries the label \<open>L\<close>.
\<close>

theorem cancelled_label_silent:
  assumes "run_ops (TestClock_init t0) ops = Some c"
    and "run_ops (cancel_timer c L) ops' = Some c1"
    and "not_registered L (cancel_timer c L) ops'"
    and "advance_time c1 to = Some (Returned evs, c2)"
  shows "\<forall>(e, h) \<in> set evs. ev_label e \<noteq> L"
proof -
  have inv: "clock_inv (cancel_timer c L)"
    using assms(1) by (intro clock_inv_cancel_timer reachable_clock_inv)
  have "L \<notin> fst ` set (timers (cancel_timer c L))"
    by (simp add: keys_delete)
  from run_ops_keeps_absent [OF inv this assms(3,2)]
  have inv1: "clock_inv c1" and absent: "L \<notin> fst ` set (timers c1)" by simp_all
  from advance_time_result [OF inv1 assms(4)]
  have "\<forall>(e, h) \<in> set evs. \<exists>(k, t) \<in> set (timers c1). ev_label e = k" by fastforce
  with absent show ?thesis by (fastforce intro: rev_image_eqI)
qed

theorem cancelled_label_silent_witness:
  "run_ops (TestClock_init 100) example_ops = Some example_clock \<and>
   run_ops (cancel_timer example_clock ''a'') [AdvanceTime 104] = Some (cancel_timer example_clock ''a'') \<and>
   not_registered ''a'' (cancel_timer example_clock ''a'') [AdvanceTime 104] \<and>
   advance_time (cancel_timer example_clock ''a'') 112 =
     Some (Returned [(\<lparr>ev_label = ''r'', ev_timestamp = 110\<rparr>, Callable 2)], example_clock') \<and>
   map (ev_label \<circ> fst) [(\<lparr>ev_label = ''r'', ev_timestamp = 110\<rparr>, Callable 2)] = [''r'']"
proof -
  have r: "run_ops (cancel_timer example_clock ''a'') [AdvanceTime 104] = Some (cancel_timer example_clock ''a'')"
    unfolding example_clock_def by code_simp
  have n: "not_registered ''a'' (cancel_timer example_clock ''a'') [AdvanceTime 104]"
    unfolding example_clock_def by code_simp
  have a: "advance_time (cancel_timer example_clock ''a'') 112 =
     Some (Returned [(\<lparr>ev_label = ''r'', ev_timestamp = 110\<rparr>, Callable 2)], example_clock')"
    unfolding example_clock_def example_clock'_def by code_simp
  from cancelled_label_silent [OF example_reachable r n a] example_reachable r n a
  show ?thesis by simp
qed

end
